theory Spec2Isabelle
  imports Main "HOL-Library.Sublist"
begin

section \<open>Python strings and the tables of the Python runtime\<close>

text \<open>
  A Python \<open>str\<close> is a sequence of Unicode code points: a list of natural numbers. The
  literals of the source are ASCII and written with \<open>ustr\<close>.
\<close>

type_synonym ustring = "nat list"

definition ustr :: "string \<Rightarrow> ustring" where
  "ustr s = map of_char s"

text \<open>
  What the repository takes from the Unicode database of the runtime is a parameter of
  every function below, so that each property is proved for whatever these tables are:
  \<^item> \<open>rt_word\<close>: the class \<open>\w\<close> of a \<open>str\<close> pattern, which also decides \<open>\b\<close>;
  \<^item> \<open>rt_space\<close>: \<open>str.isspace\<close>, the class \<open>\s\<close>, and the separators of \<open>str.split()\<close>
    and \<open>str.strip()\<close>;
  \<^item> \<open>rt_lower\<close>: \<open>str.lower\<close>, a function on whole strings (it may change the length);
  \<^item> \<open>rt_caseless\<close>: whether a literal pattern character matches a text character
    under \<open>re.IGNORECASE\<close>.
\<close>

record pyrt =
  rt_word :: "nat \<Rightarrow> bool"
  rt_space :: "nat \<Rightarrow> bool"
  rt_lower :: "ustring \<Rightarrow> ustring"
  rt_caseless :: "nat \<Rightarrow> nat \<Rightarrow> bool"

text \<open>
  The values of these tables on the code points below 256 (ASCII and Latin-1), used
  to run the functions on concrete texts of such code points: alphanumeric characters
  and the underscore, the whitespace characters, and the upper-case letters, which are
  \<open>A\<close>..\<open>Z\<close>, \<open>U+00C0\<close>..\<open>U+00D6\<close> and \<open>U+00D8\<close>..\<open>U+00DE\<close>, each 32 below its
  lower-case form.
\<close>

definition latin1_word :: "nat \<Rightarrow> bool" where
  "latin1_word n =
     ((48 \<le> n \<and> n \<le> 57) \<or> (65 \<le> n \<and> n \<le> 90) \<or> n = 95 \<or> (97 \<le> n \<and> n \<le> 122)
      \<or> n = 170 \<or> n = 178 \<or> n = 179 \<or> n = 181 \<or> n = 185 \<or> n = 186
      \<or> (188 \<le> n \<and> n \<le> 190) \<or> (192 \<le> n \<and> n \<le> 214) \<or> (216 \<le> n \<and> n \<le> 246)
      \<or> (248 \<le> n \<and> n \<le> 255))"

definition latin1_space :: "nat \<Rightarrow> bool" where
  "latin1_space n = ((9 \<le> n \<and> n \<le> 13) \<or> (28 \<le> n \<and> n \<le> 32) \<or> n = 133 \<or> n = 160)"

definition latin1_lower_char :: "nat \<Rightarrow> nat" where
  "latin1_lower_char n =
     (if (65 \<le> n \<and> n \<le> 90) \<or> (192 \<le> n \<and> n \<le> 214) \<or> (216 \<le> n \<and> n \<le> 222)
      then n + 32 else n)"

definition latin1_rt :: pyrt where
  "latin1_rt =
     \<lparr> rt_word = latin1_word,
       rt_space = latin1_space,
       rt_lower = map latin1_lower_char,
       rt_caseless = (\<lambda>p c. latin1_lower_char p = latin1_lower_char c) \<rparr>"

text \<open>\<open>str.split()\<close> without arguments: the maximal runs of non-whitespace.\<close>

fun split_acc :: "pyrt \<Rightarrow> ustring \<Rightarrow> ustring \<Rightarrow> ustring list" where
  "split_acc R cur [] = (if cur = [] then [] else [cur])"
| "split_acc R cur (c # cs) =
     (if rt_space R c then (if cur = [] then split_acc R [] cs else cur # split_acc R [] cs)
      else split_acc R (cur @ [c]) cs)"

definition py_split :: "pyrt \<Rightarrow> ustring \<Rightarrow> ustring list" where
  "py_split R s = split_acc R [] s"

text \<open>\<open>str.strip()\<close>: whitespace removed at both ends.\<close>

definition py_strip :: "pyrt \<Rightarrow> ustring \<Rightarrow> ustring" where
  "py_strip R s = rev (dropWhile (rt_space R) (rev (dropWhile (rt_space R) s)))"

text \<open>The operator \<open>a in b\<close> on strings: a scan for the first position where \<open>a\<close> starts.\<close>

fun py_in :: "ustring \<Rightarrow> ustring \<Rightarrow> bool" where
  "py_in xs [] = (xs = [])"
| "py_in xs (y # ys) = (prefix xs (y # ys) \<or> py_in xs ys)"

text \<open>\<open>re.split(r'[.!?]+', text)\<close>: the pieces between maximal runs of delimiters,
  empty pieces at the ends included.\<close>

definition is_delim :: "nat \<Rightarrow> bool" where
  "is_delim c = (c = of_char CHR ''.'' \<or> c = of_char CHR ''!'' \<or> c = of_char CHR ''?'')"

fun split_sentences_acc :: "ustring \<Rightarrow> bool \<Rightarrow> ustring \<Rightarrow> ustring list" where
  "split_sentences_acc cur in_run [] = [cur]"
| "split_sentences_acc cur in_run (c # cs) =
     (if is_delim c
      then (if in_run then split_sentences_acc cur True cs
            else cur # split_sentences_acc [] True cs)
      else split_sentences_acc (cur @ [c]) False cs)"

definition split_sentences :: "ustring \<Rightarrow> ustring list" where
  "split_sentences s = split_sentences_acc [] False s"


section \<open>The fragment of Python regular expressions the repository uses\<close>

text \<open>
  The patterns of the repository are built from literal characters, \<open>\b\<close>, \<open>\w*\<close> and
  \<open>\s+\<close>. A compiled pattern is a list of such items; matching is the backtracking
  search of Python's engine, a greedy quantifier trying its longest run first.
\<close>

datatype cls = CWord | CSpace

datatype rx = Lit nat | WordB | Star cls | Plus cls

fun in_cls :: "pyrt \<Rightarrow> cls \<Rightarrow> nat \<Rightarrow> bool" where
  "in_cls R CWord c = rt_word R c"
| "in_cls R CSpace c = rt_space R c"

text \<open>\<open>\b\<close> at a position: exactly one of the two neighbours is a word character,
  the ends of the string counting as non-word.\<close>

definition at_boundary :: "pyrt \<Rightarrow> nat option \<Rightarrow> ustring \<Rightarrow> bool" where
  "at_boundary R prev s =
     ((case prev of None \<Rightarrow> False | Some p \<Rightarrow> rt_word R p)
        \<noteq> (case s of [] \<Rightarrow> False | c # _ \<Rightarrow> rt_word R c))"

definition lit_eq :: "pyrt \<Rightarrow> bool \<Rightarrow> nat \<Rightarrow> nat \<Rightarrow> bool" where
  "lit_eq R ic p c = (if ic then rt_caseless R p c else p = c)"

text \<open>\<open>match_here R ic rs prev s\<close>: the length of the match the engine finds for \<open>rs\<close>
  at the start of \<open>s\<close>, the character before being \<open>prev\<close>; \<open>ic\<close> is \<open>re.IGNORECASE\<close>.\<close>

function match_here :: "pyrt \<Rightarrow> bool \<Rightarrow> rx list \<Rightarrow> nat option \<Rightarrow> ustring \<Rightarrow> nat option" where
  "match_here R ic [] prev s = Some 0"
| "match_here R ic (Lit p # rs) prev [] = None"
| "match_here R ic (Lit p # rs) prev (c # cs) =
     (if lit_eq R ic p c then map_option Suc (match_here R ic rs (Some c) cs) else None)"
| "match_here R ic (WordB # rs) prev s =
     (if at_boundary R prev s then match_here R ic rs prev s else None)"
| "match_here R ic (Star k # rs) prev [] = match_here R ic rs prev []"
| "match_here R ic (Star k # rs) prev (c # cs) =
     (if in_cls R k c
      then (case match_here R ic (Star k # rs) (Some c) cs of
              Some n \<Rightarrow> Some (Suc n)
            | None \<Rightarrow> match_here R ic rs prev (c # cs))
      else match_here R ic rs prev (c # cs))"
| "match_here R ic (Plus k # rs) prev [] = None"
| "match_here R ic (Plus k # rs) prev (c # cs) =
     (if in_cls R k c then map_option Suc (match_here R ic (Star k # rs) (Some c) cs)
      else None)"
  by pat_completeness auto
termination
  by (relation "measures [\<lambda>(R, ic, rs, prev, s). length s,
                          \<lambda>(R, ic, rs, prev, s). size_list size rs]") auto

text \<open>\<open>re.search\<close>: is there a position where the pattern matches?\<close>

fun search_from :: "pyrt \<Rightarrow> bool \<Rightarrow> rx list \<Rightarrow> nat option \<Rightarrow> ustring \<Rightarrow> bool" where
  "search_from R ic rs prev [] = (match_here R ic rs prev [] \<noteq> None)"
| "search_from R ic rs prev (c # cs) =
     (match_here R ic rs prev (c # cs) \<noteq> None \<or> search_from R ic rs (Some c) cs)"

definition re_search :: "pyrt \<Rightarrow> bool \<Rightarrow> rx list \<Rightarrow> ustring \<Rightarrow> bool" where
  "re_search R ic rs s = search_from R ic rs None s"

text \<open>\<open>re.finditer\<close>: the spans \<open>(start, end)\<close> of the successive matches, left to right;
  after a match the scan resumes at its end (\<open>skip\<close> counts the characters of the
  match still to pass), and after an empty match one character further.\<close>

fun scan ::
  "pyrt \<Rightarrow> bool \<Rightarrow> rx list \<Rightarrow> nat option \<Rightarrow> nat \<Rightarrow> nat \<Rightarrow> ustring \<Rightarrow> (nat \<times> nat) list" where
  "scan R ic rs prev pos skip [] =
     (if skip = 0 then (case match_here R ic rs prev [] of
                          Some n \<Rightarrow> [(pos, pos + n)] | None \<Rightarrow> [])
      else [])"
| "scan R ic rs prev pos skip (c # cs) =
     (if skip > 0 then scan R ic rs (Some c) (Suc pos) (skip - 1) cs
      else (case match_here R ic rs prev (c # cs) of
              Some n \<Rightarrow> (pos, pos + n) # scan R ic rs (Some c) (Suc pos) (n - 1) cs
            | None \<Rightarrow> scan R ic rs (Some c) (Suc pos) 0 cs))"

definition finditer :: "pyrt \<Rightarrow> bool \<Rightarrow> rx list \<Rightarrow> ustring \<Rightarrow> (nat \<times> nat) list" where
  "finditer R ic rs s = scan R ic rs None 0 0 s"

text \<open>\<open>match.group(0)\<close>: the slice of the searched string at the span.\<close>

definition group0 :: "ustring \<Rightarrow> nat \<times> nat \<Rightarrow> ustring" where
  "group0 s sp = take (snd sp - fst sp) (drop (fst sp) s)"


section \<open>The rule-based keyword filter\<close>

text \<open>Pattern \<open>r'\b' + re.escape(keyword) + r'\b'\<close>: \<open>re.escape\<close> yields a pattern that
  matches its argument character by character.\<close>

definition word_pattern :: "ustring \<Rightarrow> rx list" where
  "word_pattern k = WordB # map Lit k @ [WordB]"

text \<open>The first sentence satisfying a test, stripped; nothing when there is none
  (the \<open>for\<close> loop with \<open>break\<close>).\<close>

definition first_sentence :: "pyrt \<Rightarrow> (ustring \<Rightarrow> bool) \<Rightarrow> ustring list \<Rightarrow> ustring list" where
  "first_sentence R P sentences =
     (case List.find P sentences of None \<Rightarrow> [] | Some s \<Rightarrow> [py_strip R s])"

text \<open>The loop over the keywords of \<open>find_keywords_in_text\<close>, with the two result lists
  as accumulators.\<close>

fun keywords_loop ::
  "pyrt \<Rightarrow> ustring \<Rightarrow> ustring list \<Rightarrow> ustring list \<Rightarrow> ustring list \<times> ustring list
     \<Rightarrow> ustring list \<times> ustring list" where
  "keywords_loop R text_lower sentences [] acc = acc"
| "keywords_loop R text_lower sentences (keyword # keywords) (found_keywords, found_sentences) =
     (let keyword_lower = rt_lower R keyword in
      if length (py_split R keyword) = 1
      then (let pattern = word_pattern keyword_lower in
            if re_search R False pattern text_lower
            then keywords_loop R text_lower sentences keywords
                   (found_keywords @ [keyword],
                    found_sentences
                      @ first_sentence R (\<lambda>s. re_search R False pattern (rt_lower R s)) sentences)
            else keywords_loop R text_lower sentences keywords (found_keywords, found_sentences))
      else (if py_in keyword_lower text_lower
            then keywords_loop R text_lower sentences keywords
                   (found_keywords @ [keyword],
                    found_sentences
                      @ first_sentence R (\<lambda>s. py_in keyword_lower (rt_lower R s)) sentences)
            else keywords_loop R text_lower sentences keywords (found_keywords, found_sentences)))"

definition find_keywords_in_text ::
  "pyrt \<Rightarrow> ustring \<Rightarrow> ustring list \<Rightarrow> ustring list \<times> ustring list" where
  "find_keywords_in_text R text keywords =
     (if text = [] then ([], [])
      else keywords_loop R (rt_lower R text) (split_sentences text) keywords ([], []))"

definition behavioral_base_keywords :: "ustring list" where
  "behavioral_base_keywords = [ustr ''behavioral activation'', ustr ''behavioural activation'']"

text \<open>The compiled forms of \<open>r"\bactivity schedul\w*"\<close>, \<open>r"\bbehavio\w*\s+interven\w*"\<close>
  and \<open>r"\bbehavio\w*\s+therap\w*"\<close>.\<close>

definition behavioral_patterns :: "rx list list" where
  "behavioral_patterns =
     [WordB # map Lit (ustr ''activity schedul'') @ [Star CWord],
      WordB # map Lit (ustr ''behavio'') @ [Star CWord, Plus CSpace]
        @ map Lit (ustr ''interven'') @ [Star CWord],
      WordB # map Lit (ustr ''behavio'') @ [Star CWord, Plus CSpace]
        @ map Lit (ustr ''therap'') @ [Star CWord]]"

text \<open>The inner loop of \<open>find_behavioral_keywords_in_text\<close> over the matches of one
  pattern, and the outer loop over the patterns.\<close>

fun matches_loop ::
  "pyrt \<Rightarrow> ustring list \<Rightarrow> ustring list \<Rightarrow> ustring list \<times> ustring list
     \<Rightarrow> ustring list \<times> ustring list" where
  "matches_loop R sentences [] acc = acc"
| "matches_loop R sentences (matched_text # rest) (found_keywords, found_sentences) =
     (if matched_text \<notin> set (map (rt_lower R) found_keywords)
      then matches_loop R sentences rest
             (found_keywords @ [matched_text],
              found_sentences
                @ first_sentence R (\<lambda>s. py_in matched_text (rt_lower R s)) sentences)
      else matches_loop R sentences rest (found_keywords, found_sentences))"

fun patterns_loop ::
  "pyrt \<Rightarrow> ustring \<Rightarrow> ustring list \<Rightarrow> rx list list \<Rightarrow> ustring list \<times> ustring list
     \<Rightarrow> ustring list \<times> ustring list" where
  "patterns_loop R text_lower sentences [] acc = acc"
| "patterns_loop R text_lower sentences (pattern # patterns) acc =
     patterns_loop R text_lower sentences patterns
       (matches_loop R sentences
          (map (group0 text_lower) (finditer R True pattern text_lower)) acc)"

definition find_behavioral_keywords_in_text :: "pyrt \<Rightarrow> ustring \<Rightarrow> ustring list \<times> ustring list" where
  "find_behavioral_keywords_in_text R text =
     (if text = [] then ([], [])
      else patterns_loop R (rt_lower R text) (split_sentences text) behavioral_patterns
             (find_keywords_in_text R text behavioral_base_keywords))"

definition depression_keywords :: "ustring list" where
  "depression_keywords =
     map ustr [''depression'', ''depressive symptoms'', ''depressive disorder'']"

definition mobile_keywords :: "ustring list" where
  "mobile_keywords =
     map ustr [''mobile application'', ''smartphone application'', ''mobile'', ''smartphone'',
      ''iphone'', ''android'', ''app'', ''digital'', ''digital therapeutic'',
      ''digital therapeutics'', ''mhealth'']"

text \<open>\<open>sep.join(xs)\<close>.\<close>

fun py_join :: "ustring \<Rightarrow> ustring list \<Rightarrow> ustring" where
  "py_join sep [] = []"
| "py_join sep [x] = x"
| "py_join sep (x # y # zs) = x @ sep @ py_join sep (y # zs)"

record rule_result =
  rr_depression_keywords :: ustring
  rr_mobile_keywords :: ustring
  rr_behavioral_keywords :: ustring
  rr_result :: ustring

text \<open>\<open>evaluate_single_paper\<close>; the reason string the source builds is not part of what
  it returns.\<close>

definition evaluate_single_paper :: "pyrt \<Rightarrow> ustring \<Rightarrow> ustring \<Rightarrow> rule_result" where
  "evaluate_single_paper R title abstract =
     (let full_text = title @ ustr '' '' @ abstract;
          depression_found = fst (find_keywords_in_text R full_text depression_keywords);
          mobile_found = fst (find_keywords_in_text R full_text mobile_keywords);
          behavioral_found = fst (find_behavioral_keywords_in_text R full_text);
          has_depression = (length depression_found > 0);
          has_mobile = (length mobile_found > 0);
          has_behavioral = (length behavioral_found > 0)
      in \<lparr> rr_depression_keywords = py_join (ustr '', '') depression_found,
           rr_mobile_keywords = py_join (ustr '', '') mobile_found,
           rr_behavioral_keywords = py_join (ustr '', '') behavioral_found,
           rr_result = (if has_depression \<and> has_mobile \<and> has_behavioral
                        then ustr ''include'' else ustr ''exclude'') \<rparr>)"


subsection \<open>What the specification calls a match\<close>

text \<open>A word boundary between the part \<open>l\<close> of a text and the rest \<open>r\<close>: exactly one of
  the two characters at the cut is a word character.\<close>

definition word_boundary :: "pyrt \<Rightarrow> ustring \<Rightarrow> ustring \<Rightarrow> bool" where
  "word_boundary R l r = ((l \<noteq> [] \<and> rt_word R (last l)) \<noteq> (r \<noteq> [] \<and> rt_word R (hd r)))"

text \<open>A case-insensitive occurrence of the keyword with a word boundary at each end:
  the lower-cased keyword occurs in the lower-cased text, between two word boundaries
  of that text.\<close>

definition word_bounded_occurrence :: "pyrt \<Rightarrow> ustring \<Rightarrow> ustring \<Rightarrow> bool" where
  "word_bounded_occurrence R k t =
     (\<exists>pre post. rt_lower R t = pre @ rt_lower R k @ post
        \<and> word_boundary R pre (rt_lower R k @ post)
        \<and> word_boundary R (pre @ rt_lower R k) post)"

text \<open>The lower-cased phrase is a substring of the lower-cased text.\<close>

definition phrase_occurrence :: "pyrt \<Rightarrow> ustring \<Rightarrow> ustring \<Rightarrow> bool" where
  "phrase_occurrence R k t = (\<exists>pre post. rt_lower R t = pre @ rt_lower R k @ post)"


text \<open>The character before a position: the last one of what was read, \<open>prev\<close> when
  nothing was.\<close>

definition prev_after :: "nat option \<Rightarrow> ustring \<Rightarrow> nat option" where
  "prev_after prev k = (if k = [] then prev else Some (last k))"


text \<open>Which of the three categories have a non-empty matched-term list on the text the
  evaluator builds from a title and an abstract.\<close>

definition category_flags :: "pyrt \<Rightarrow> ustring \<Rightarrow> ustring \<Rightarrow> bool \<times> bool \<times> bool" where
  "category_flags R title abstract =
     (fst (find_keywords_in_text R (title @ ustr '' '' @ abstract) depression_keywords) \<noteq> [],
      fst (find_keywords_in_text R (title @ ustr '' '' @ abstract) mobile_keywords) \<noteq> [],
      fst (find_behavioral_keywords_in_text R (title @ ustr '' '' @ abstract)) \<noteq> [])"


section \<open>The highlight renderer of the review interface\<close>

text \<open>\<open>re.sub(r'\s+', r'\\s+', s)\<close>: every maximal run of whitespace becomes the three
  characters \<open>\s+\<close> (code point 92 is the backslash).\<close>

fun sub_whitespace :: "pyrt \<Rightarrow> bool \<Rightarrow> ustring \<Rightarrow> ustring" where
  "sub_whitespace R in_run [] = []"
| "sub_whitespace R in_run (c # cs) =
     (if rt_space R c
      then (if in_run then sub_whitespace R True cs
            else [92] @ ustr ''s+'' @ sub_whitespace R True cs)
      else c # sub_whitespace R False cs)"

text \<open>\<open>convert_wildcard_to_regex\<close>: the regular expression, as a string, of a keyword
  with a \<open>*\<close>; \<open>None\<close> for a keyword without.\<close>

definition convert_wildcard_to_regex :: "pyrt \<Rightarrow> ustring \<Rightarrow> ustring option" where
  "convert_wildcard_to_regex R keyword =
     (if of_char CHR ''*'' \<in> set keyword
      then (let regex_pattern =
                  concat (map (\<lambda>c. if c = of_char CHR ''*'' then [92] @ ustr ''w*'' else [c])
                            keyword);
                regex_pattern = sub_whitespace R False regex_pattern
            in Some ([92] @ ustr ''b'' @ regex_pattern @ [92] @ ustr ''b''))
      else None)"

text \<open>The characters with a meaning of their own in a pattern.\<close>

definition is_meta :: "nat \<Rightarrow> bool" where
  "is_meta c = (c \<in> set (ustr ''.^$*+?{}[]|()'') \<or> c = 92)"

text \<open>\<open>re.compile\<close> on the fragment: \<open>\b\<close>, \<open>\w*\<close>, \<open>\s+\<close> and characters that stand for
  themselves. \<open>None\<close> is a pattern outside the fragment, which Python either refuses or
  reads with operators that are not modelled here.\<close>

fun re_compile :: "ustring \<Rightarrow> rx list option" where
  "re_compile [] = Some []"
| "re_compile (c # cs) =
     (if c = 92
      then (case cs of
              [] \<Rightarrow> None
            | d # ds \<Rightarrow>
                if d = of_char CHR ''b'' then map_option (Cons WordB) (re_compile ds)
                else if d = of_char CHR ''w''
                then (case ds of
                        [] \<Rightarrow> None
                      | e # es \<Rightarrow> if e = of_char CHR ''*''
                                 then map_option (Cons (Star CWord)) (re_compile es)
                                 else None)
                else if d = of_char CHR ''s''
                then (case ds of
                        [] \<Rightarrow> None
                      | e # es \<Rightarrow> if e = of_char CHR ''+''
                                 then map_option (Cons (Plus CSpace)) (re_compile es)
                                 else None)
                else None)
      else if is_meta c then None
      else map_option (Cons (Lit c)) (re_compile cs))"

text \<open>The pattern strings of \<open>behavioral_patterns\<close> as the source writes them.\<close>

definition behavioral_pattern_sources :: "ustring list" where
  "behavioral_pattern_sources =
     [[92] @ ustr ''bactivity schedul'' @ [92] @ ustr ''w*'',
      [92] @ ustr ''bbehavio'' @ [92] @ ustr ''w*'' @ [92] @ ustr ''s+interven''
        @ [92] @ ustr ''w*'',
      [92] @ ustr ''bbehavio'' @ [92] @ ustr ''w*'' @ [92] @ ustr ''s+therap''
        @ [92] @ ustr ''w*'']"

text \<open>The pattern \<open>highlight_all_keywords\<close> compiles for one keyword;
  \<open>use_word_boundary\<close> is the flag of the session.\<close>

definition keyword_pattern :: "pyrt \<Rightarrow> bool \<Rightarrow> ustring \<Rightarrow> rx list option" where
  "keyword_pattern R use_word_boundary keyword =
     (case convert_wildcard_to_regex R keyword of
        Some wildcard_pattern \<Rightarrow> re_compile wildcard_pattern
      | None \<Rightarrow>
          if use_word_boundary
          then (if length (py_split R keyword) = 1 then Some (word_pattern keyword)
                else Some (map Lit keyword))
          else Some (map Lit keyword))"

record hmatch =
  m_start :: nat
  m_end :: nat
  m_text :: ustring
  m_class :: ustring

text \<open>The loops over the keywords of a category and over the categories, appending to
  \<open>all_matches\<close>; \<open>None\<close> when a pattern is outside the fragment.\<close>

fun keyword_loop ::
  "pyrt \<Rightarrow> bool \<Rightarrow> ustring \<Rightarrow> ustring \<Rightarrow> ustring list \<Rightarrow> hmatch list \<Rightarrow> hmatch list option" where
  "keyword_loop R use_word_boundary text class_name [] all_matches = Some all_matches"
| "keyword_loop R use_word_boundary text class_name (keyword # keywords) all_matches =
     (case keyword_pattern R use_word_boundary keyword of
        None \<Rightarrow> None
      | Some pattern \<Rightarrow>
          keyword_loop R use_word_boundary text class_name keywords
            (all_matches
               @ map (\<lambda>sp. \<lparr> m_start = fst sp, m_end = snd sp, m_text = group0 text sp,
                               m_class = class_name \<rparr>)
                   (finditer R True pattern text)))"

fun category_loop ::
  "pyrt \<Rightarrow> bool \<Rightarrow> ustring \<Rightarrow> (ustring \<times> ustring list) list \<Rightarrow> hmatch list
     \<Rightarrow> hmatch list option" where
  "category_loop R use_word_boundary text [] all_matches = Some all_matches"
| "category_loop R use_word_boundary text ((category, keywords) # rest) all_matches =
     (if keywords = [] then category_loop R use_word_boundary text rest all_matches
      else (case keyword_loop R use_word_boundary text (ustr ''highlight-'' @ category)
                   keywords all_matches of
              None \<Rightarrow> None
            | Some all_matches' \<Rightarrow> category_loop R use_word_boundary text rest all_matches'))"

text \<open>The test of the source for two matches sharing a position.\<close>

definition overlaps :: "hmatch \<Rightarrow> hmatch \<Rightarrow> bool" where
  "overlaps m existing = (m_start m < m_end existing \<and> m_end m > m_start existing)"

text \<open>The loop that keeps a match when it overlaps none of those kept before.\<close>

fun filter_overlaps :: "hmatch list \<Rightarrow> hmatch list \<Rightarrow> hmatch list" where
  "filter_overlaps filtered_matches [] = filtered_matches"
| "filter_overlaps filtered_matches (m # ms) =
     (if list_ex (overlaps m) filtered_matches then filter_overlaps filtered_matches ms
      else filter_overlaps (filtered_matches @ [m]) ms)"

text \<open>The spans the renderer applies: all matches, sorted by descending start (the sort
  of Python is stable), then filtered.\<close>

definition applied_spans ::
  "pyrt \<Rightarrow> bool \<Rightarrow> ustring \<Rightarrow> (ustring \<times> ustring list) list \<Rightarrow> hmatch list option" where
  "applied_spans R use_word_boundary text all_selected_keywords =
     map_option (\<lambda>all_matches. filter_overlaps [] (sort_key (\<lambda>m. - int (m_start m)) all_matches))
       (category_loop R use_word_boundary text all_selected_keywords [])"

text \<open>The marker put around a match (code point 34 is the double quote).\<close>

definition span_markup :: "ustring \<Rightarrow> ustring \<Rightarrow> ustring" where
  "span_markup cls txt = ustr ''<span class='' @ [34] @ cls @ [34] @ ustr ''>'' @ txt @ ustr ''</span>''"



subsection \<open>What the specification says of the rendered text\<close>

text \<open>A text cut into segments, some of them marked with a class: \<open>render\<close> writes the
  segments with the markers around the marked ones, \<open>plain\<close> without any marker.\<close>

fun render :: "(ustring option \<times> ustring) list \<Rightarrow> ustring" where
  "render [] = []"
| "render ((None, s) # segs) = s @ render segs"
| "render ((Some cls, s) # segs) = span_markup cls s @ render segs"





text \<open>Index sets of two spans do not meet.\<close>

definition disjoint_spans :: "hmatch \<Rightarrow> hmatch \<Rightarrow> bool" where
  "disjoint_spans a b = ({m_start a ..< m_end a} \<inter> {m_start b ..< m_end b} = {})"


subsection \<open>What is recorded once by the behavioural matcher\<close>

text \<open>Each string of \<open>wild\<close> differs from the lower-cased forms of the strings recorded
  before it, \<open>before\<close> being those recorded at the start.\<close>

fun recorded_once :: "pyrt \<Rightarrow> ustring list \<Rightarrow> ustring list \<Rightarrow> bool" where
  "recorded_once R before [] = True"
| "recorded_once R before (w # ws) =
     (w \<notin> set (map (rt_lower R) before) \<and> recorded_once R (before @ [w]) ws)"


section \<open>Properties of the keyword matcher\<close>

lemma fst_keywords_loop:
  "fst (keywords_loop R tlow ss ks acc) =
     fst acc @ filter (\<lambda>k. if length (py_split R k) = 1
                            then re_search R False (word_pattern (rt_lower R k)) tlow
                            else py_in (rt_lower R k) tlow) ks"
  by (induction ks arbitrary: acc) (auto simp: Let_def split: prod.splits)

lemma py_in_iff: "py_in xs ys \<longleftrightarrow> (\<exists>ps ss. ys = ps @ xs @ ss)"
proof (induction ys)
  case Nil
  then show ?case by auto
next
  case (Cons y ys)
  have "py_in xs (y # ys) \<longleftrightarrow> prefix xs (y # ys) \<or> sublist xs ys"
    using Cons by (simp add: sublist_def)
  then show ?case
    using sublist_Cons_right[of xs y ys] by (simp add: sublist_def)
qed

lemma match_here_lits:
  "match_here R False (map Lit k @ rs) prev s =
     (if prefix k s
      then map_option (\<lambda>n. length k + n)
             (match_here R False rs (prev_after prev k) (drop (length k) s))
      else None)"
proof (induction k arbitrary: prev s)
  case Nil
  then show ?case
    by (cases "match_here R False rs prev s") (simp_all add: prev_after_def)
next
  case (Cons a k)
  show ?case
  proof (cases s)
    case Nil
    then show ?thesis by simp
  next
    case (Cons c cs)
    then show ?thesis
      using Cons.IH[of "Some c" cs]
      by (auto simp: lit_eq_def prev_after_def option.map_comp comp_def)
  qed
qed

lemma search_from_iff:
  "search_from R ic rs prev s \<longleftrightarrow>
     (\<exists>pre post. s = pre @ post \<and> match_here R ic rs (prev_after prev pre) post \<noteq> None)"
proof (induction s arbitrary: prev)
  case Nil
  then show ?case by (simp add: prev_after_def)
next
  case (Cons c cs)
  show ?case (is "?L \<longleftrightarrow> ?R")
  proof
    assume ?L
    then consider "match_here R ic rs prev (c # cs) \<noteq> None" | "search_from R ic rs (Some c) cs"
      by auto
    then show ?R
    proof cases
      case 1
      then have "c # cs = [] @ (c # cs)
          \<and> match_here R ic rs (prev_after prev []) (c # cs) \<noteq> None"
        by (simp add: prev_after_def)
      then show ?thesis by blast
    next
      case 2
      then obtain pre post where p: "cs = pre @ post"
        "match_here R ic rs (prev_after (Some c) pre) post \<noteq> None"
        using Cons.IH by blast
      then have "c # cs = (c # pre) @ post
          \<and> match_here R ic rs (prev_after prev (c # pre)) post \<noteq> None"
        by (auto simp: prev_after_def)
      then show ?thesis by blast
    qed
  next
    assume ?R
    then obtain pre post where p: "c # cs = pre @ post"
      "match_here R ic rs (prev_after prev pre) post \<noteq> None" by blast
    show ?L
    proof (cases pre)
      case Nil
      with p have "post = c # cs" by simp
      with p Nil show ?thesis by (simp add: prev_after_def)
    next
      case (Cons a pre')
      with p have "cs = pre' @ post" "match_here R ic rs (prev_after (Some c) pre') post \<noteq> None"
        by (auto simp: prev_after_def)
      then have "search_from R ic rs (Some c) cs" using Cons.IH by blast
      then show ?thesis by simp
    qed
  qed
qed

lemma at_boundary_word_boundary:
  "at_boundary R (prev_after None l) r = word_boundary R l r"
  by (cases r) (auto simp: at_boundary_def word_boundary_def prev_after_def)

lemma re_search_word_pattern:
  "re_search R False (word_pattern k) s \<longleftrightarrow>
     (\<exists>pre post. s = pre @ k @ post \<and> word_boundary R pre (k @ post)
        \<and> word_boundary R (pre @ k) post)"
proof -
  have m: "match_here R False (word_pattern k) (prev_after None pre) rest \<noteq> None \<longleftrightarrow>
      (\<exists>post. rest = k @ post \<and> word_boundary R pre (k @ post)
         \<and> word_boundary R (pre @ k) post)"
    for pre rest
  proof -
    have pa: "prev_after (prev_after None pre) k = prev_after None (pre @ k)"
      by (simp add: prev_after_def)
    show ?thesis
      unfolding word_pattern_def
      by (auto simp: match_here_lits pa at_boundary_word_boundary prefix_def)
  qed
  show ?thesis
    unfolding re_search_def search_from_iff m by auto
qed

lemma word_search_iff:
  "re_search R False (word_pattern (rt_lower R k)) (rt_lower R t)
     \<longleftrightarrow> word_bounded_occurrence R k t"
  by (simp add: re_search_word_pattern word_bounded_occurrence_def)

lemma phrase_search_iff:
  "py_in (rt_lower R k) (rt_lower R t) \<longleftrightarrow> phrase_occurrence R k t"
  by (simp add: py_in_iff phrase_occurrence_def)

lemma py_split_Nil [simp]: "py_split R [] = []"
  by (simp add: py_split_def)

lemma found_keywords_filter:
  "fst (find_keywords_in_text R t ks) =
     filter (\<lambda>k. t \<noteq> [] \<and> (if length (py_split R k) = 1 then word_bounded_occurrence R k t
                               else phrase_occurrence R k t)) ks"
  by (simp add: find_keywords_in_text_def fst_keywords_loop word_search_iff phrase_search_iff)





lemma sample_split:
  "map (\<lambda>k. length (py_split latin1_rt k))
     (map ustr [''app'', ''the app'', ''apply app'', ''the'', ''ply'']) = [1, 2, 2, 1, 1]"
  by code_simp


text \<open>
  C10. Every string in the matched-terms list of \<open>find_keywords_in_text\<close> is an element
  of the input keyword list, as written there; and when the input list has no
  duplicates, neither has the output.
\<close>

theorem find_keywords_in_text_from_list:
  "set (fst (find_keywords_in_text R t ks)) \<subseteq> set ks
   \<and> (distinct ks \<longrightarrow> distinct (fst (find_keywords_in_text R t ks)))"
  by (auto simp: found_keywords_filter)

lemma sample_casing:
  "fst (find_keywords_in_text latin1_rt (ustr ''An app, the APP'')
          (map ustr [''App'', ''apply'', ''the app''])) = map ustr [''App'', ''the app'']"
  by code_simp

theorem find_keywords_in_text_from_list_witness:
  "distinct (map ustr [''App'', ''apply'', ''the app''])
   \<and> set (fst (find_keywords_in_text latin1_rt (ustr ''An app, the APP'')
                 (map ustr [''App'', ''apply'', ''the app''])))
        \<subseteq> set (map ustr [''App'', ''apply'', ''the app''])
   \<and> distinct (fst (find_keywords_in_text latin1_rt (ustr ''An app, the APP'')
                      (map ustr [''App'', ''apply'', ''the app''])))
   \<and> fst (find_keywords_in_text latin1_rt (ustr ''An app, the APP'')
            (map ustr [''App'', ''apply'', ''the app'']))
        = map ustr [''App'', ''the app'']"
proof -
  have d: "distinct (map ustr [''App'', ''apply'', ''the app''])"
    by code_simp
  note th = find_keywords_in_text_from_list[of latin1_rt "ustr ''An app, the APP''"
        "map ustr [''App'', ''apply'', ''the app'']"]
  from d th[THEN conjunct1] th[THEN conjunct2, THEN mp, OF d] sample_casing show ?thesis
    by (intro conjI)
qed


section \<open>Properties of the category evaluator\<close>

lemmas eval_defs = ustr_def latin1_rt_def latin1_word_def latin1_space_def latin1_lower_char_def
  py_split_def py_strip_def is_delim_def split_sentences_def at_boundary_def lit_eq_def
  re_search_def finditer_def group0_def word_pattern_def first_sentence_def
  find_keywords_in_text_def behavioral_base_keywords_def behavioral_patterns_def
  find_behavioral_keywords_in_text_def depression_keywords_def mobile_keywords_def
  evaluate_single_paper_def category_flags_def

lemma sample_flags:
  "category_flags latin1_rt (ustr ''App'') (ustr ''depression behavior therapy'')
     = (True, True, True)"
  "category_flags latin1_rt (ustr ''Apply'') (ustr ''depression'') = (True, False, False)"
  by (simp_all add: eval_defs Let_def)

text \<open>
  C2. \<open>evaluate_single_paper\<close> runs the three matchers on the title, one space and the
  abstract, and its result is \<open>include\<close> exactly when the three matched-term lists are
  all non-empty, \<open>exclude\<close> otherwise.
\<close>

theorem evaluate_single_paper_result:
  "(rr_result (evaluate_single_paper R title abstract) = ustr ''include'') =
     (fst (find_keywords_in_text R (title @ ustr '' '' @ abstract) depression_keywords) \<noteq> []
      \<and> fst (find_keywords_in_text R (title @ ustr '' '' @ abstract) mobile_keywords) \<noteq> []
      \<and> fst (find_behavioral_keywords_in_text R (title @ ustr '' '' @ abstract)) \<noteq> [])
   \<and> (rr_result (evaluate_single_paper R title abstract) = ustr ''exclude'') =
     (\<not> (fst (find_keywords_in_text R (title @ ustr '' '' @ abstract) depression_keywords) \<noteq> []
      \<and> fst (find_keywords_in_text R (title @ ustr '' '' @ abstract) mobile_keywords) \<noteq> []
      \<and> fst (find_behavioral_keywords_in_text R (title @ ustr '' '' @ abstract)) \<noteq> []))
   \<and> rr_depression_keywords (evaluate_single_paper R title abstract) =
       py_join (ustr '', '')
         (fst (find_keywords_in_text R (title @ ustr '' '' @ abstract) depression_keywords))
   \<and> rr_mobile_keywords (evaluate_single_paper R title abstract) =
       py_join (ustr '', '')
         (fst (find_keywords_in_text R (title @ ustr '' '' @ abstract) mobile_keywords))
   \<and> rr_behavioral_keywords (evaluate_single_paper R title abstract) =
       py_join (ustr '', '')
         (fst (find_behavioral_keywords_in_text R (title @ ustr '' '' @ abstract)))"
proof -
  have ne: "ustr ''include'' \<noteq> ustr ''exclude''"
    by (simp add: ustr_def)
  show ?thesis
    using ne by (simp add: evaluate_single_paper_def Let_def)
qed

theorem evaluate_single_paper_result_witness:
  "category_flags latin1_rt (ustr ''App'') (ustr ''depression behavior therapy'')
     = (True, True, True)
   \<and> rr_result (evaluate_single_paper latin1_rt (ustr ''App'')
                  (ustr ''depression behavior therapy'')) = ustr ''include''
   \<and> category_flags latin1_rt (ustr ''Apply'') (ustr ''depression'') = (True, False, False)
   \<and> rr_result (evaluate_single_paper latin1_rt (ustr ''Apply'') (ustr ''depression''))
       = ustr ''exclude''"
proof -
  note a = sample_flags(1)[unfolded category_flags_def prod.inject]
  note b = sample_flags(2)[unfolded category_flags_def prod.inject]
  note ta = evaluate_single_paper_result[of latin1_rt "ustr ''App''"
      "ustr ''depression behavior therapy''", THEN conjunct1]
  note tb = evaluate_single_paper_result[of latin1_rt "ustr ''Apply''" "ustr ''depression''",
      THEN conjunct2, THEN conjunct1]
  have 1: "rr_result (evaluate_single_paper latin1_rt (ustr ''App'')
                  (ustr ''depression behavior therapy'')) = ustr ''include''"
    using ta a by blast
  have 2: "rr_result (evaluate_single_paper latin1_rt (ustr ''Apply'') (ustr ''depression''))
       = ustr ''exclude''"
    using tb b by blast
  from sample_flags(1) 1 sample_flags(2) 2 show ?thesis
    by (intro conjI)
qed

section \<open>Properties of the highlight renderer\<close>

lemma overlaps_sym: "overlaps a b = overlaps b a"
  by (auto simp: overlaps_def)

lemma not_overlaps_disjoint: "\<not> overlaps a b \<Longrightarrow> disjoint_spans a b"
  by (auto simp: overlaps_def disjoint_spans_def)

lemma filter_overlaps_decomp:
  "\<exists>ys. filter_overlaps acc ms = acc @ ys \<and> set ys \<subseteq> set ms"
proof (induction ms arbitrary: acc)
  case Nil
  then show ?case by simp
next
  case (Cons m ms)
  show ?case
  proof (cases "list_ex (overlaps m) acc")
    case True
    from Cons.IH[of acc] obtain ys where "filter_overlaps acc ms = acc @ ys" "set ys \<subseteq> set ms"
      by blast
    then show ?thesis using True by auto
  next
    case False
    from Cons.IH[of "acc @ [m]"] obtain ys where
      "filter_overlaps (acc @ [m]) ms = (acc @ [m]) @ ys" "set ys \<subseteq> set ms"
      by blast
    then have "filter_overlaps acc (m # ms) = acc @ (m # ys) \<and> set (m # ys) \<subseteq> set (m # ms)"
      using False by auto
    then show ?thesis by blast
  qed
qed

lemma filter_overlaps_subset: "set (filter_overlaps acc ms) \<subseteq> set acc \<union> set ms"
  using filter_overlaps_decomp[of acc ms] by auto

lemma filter_overlaps_keeps: "set acc \<subseteq> set (filter_overlaps acc ms)"
  using filter_overlaps_decomp[of acc ms] by auto

lemma filter_overlaps_sorted:
  "sorted_wrt P (acc @ ms) \<Longrightarrow> sorted_wrt P (filter_overlaps acc ms)"
proof (induction ms arbitrary: acc)
  case Nil
  then show ?case by simp
next
  case (Cons m ms)
  show ?case
  proof (cases "list_ex (overlaps m) acc")
    case True
    have "sorted_wrt P (acc @ ms)"
      using Cons.prems by (auto simp: sorted_wrt_append)
    then show ?thesis using Cons.IH[of acc] True by simp
  next
    case False
    have "sorted_wrt P ((acc @ [m]) @ ms)"
      using Cons.prems by simp
    then show ?thesis using Cons.IH[of "acc @ [m]"] False by simp
  qed
qed

lemma filter_overlaps_no_overlap:
  "sorted_wrt (\<lambda>a b. \<not> overlaps a b) acc
     \<Longrightarrow> sorted_wrt (\<lambda>a b. \<not> overlaps a b) (filter_overlaps acc ms)"
proof (induction ms arbitrary: acc)
  case Nil
  then show ?case by simp
next
  case (Cons m ms)
  show ?case
  proof (cases "list_ex (overlaps m) acc")
    case True
    then show ?thesis using Cons by simp
  next
    case False
    then have "\<forall>a\<in>set acc. \<not> overlaps a m"
      by (auto simp: list_ex_iff overlaps_sym)
    then have "sorted_wrt (\<lambda>a b. \<not> overlaps a b) (acc @ [m])"
      using Cons.prems by (simp add: sorted_wrt_append)
    then show ?thesis using Cons.IH[of "acc @ [m]"] False by simp
  qed
qed

lemma filter_overlaps_greedy:
  "m \<in> set ms \<Longrightarrow> m \<notin> set (filter_overlaps acc ms)
     \<Longrightarrow> \<exists>k\<in>set (filter_overlaps acc ms). overlaps m k"
proof (induction ms arbitrary: acc)
  case Nil
  then show ?case by simp
next
  case (Cons x ms)
  show ?case
  proof (cases "list_ex (overlaps x) acc")
    case True
    show ?thesis
    proof (cases "m = x")
      case mx: True
      from True obtain k where "k \<in> set acc" "overlaps x k"
        by (auto simp: list_ex_iff)
      then have "k \<in> set (filter_overlaps acc (x # ms))" "overlaps m k"
        using mx filter_overlaps_keeps[of acc "x # ms"] by auto
      then show ?thesis by blast
    next
      case False
      then have "m \<in> set ms" "m \<notin> set (filter_overlaps acc ms)"
        using Cons.prems True by auto
      then show ?thesis using Cons.IH[of acc] True by simp
    qed
  next
    case False
    show ?thesis
    proof (cases "m = x")
      case True
      then have "m \<in> set (filter_overlaps (acc @ [x]) ms)"
        using filter_overlaps_keeps[of "acc @ [x]" ms] by auto
      then show ?thesis using Cons.prems False by simp
    next
      case neq: False
      then have "m \<in> set ms" "m \<notin> set (filter_overlaps (acc @ [x]) ms)"
        using Cons.prems False by auto
      then show ?thesis using Cons.IH[of "acc @ [x]"] False by simp
    qed
  qed
qed

lemma sort_desc_sorted:
  "sorted_wrt (\<lambda>a b. m_start b \<le> m_start a) (sort_key (\<lambda>m. - int (m_start m)) ms)"
proof -
  have "sorted (map (\<lambda>m. - int (m_start m)) (sort_key (\<lambda>m. - int (m_start m)) ms))"
    by (rule sorted_sort_key)
  then show ?thesis by (simp add: sorted_map)
qed

text \<open>
  C6. The spans \<open>highlight_all_keywords\<close> applies are pairwise non-overlapping in the
  coordinates of the original text: they are taken from the candidate matches in the
  order of descending start, no two of them share an index, and a candidate that was
  not kept overlaps one that was.
\<close>

theorem applied_spans_disjoint:
  assumes "applied_spans R use_word_boundary text sel = Some kept"
  shows "\<exists>all_matches. category_loop R use_word_boundary text sel [] = Some all_matches
     \<and> set kept \<subseteq> set all_matches
     \<and> sorted_wrt (\<lambda>a b. m_start b \<le> m_start a) kept
     \<and> (\<forall>i < length kept. \<forall>j < length kept. i \<noteq> j \<longrightarrow> disjoint_spans (kept ! i) (kept ! j))
     \<and> (\<forall>m \<in> set all_matches. m \<notin> set kept \<longrightarrow> (\<exists>k \<in> set kept. overlaps m k))"
proof -
  from assms obtain all_matches where
    a: "category_loop R use_word_boundary text sel [] = Some all_matches" and
    k: "kept = filter_overlaps [] (sort_key (\<lambda>m. - int (m_start m)) all_matches)"
    by (auto simp: applied_spans_def)
  let ?sorted = "sort_key (\<lambda>m. - int (m_start m)) all_matches"
  have sub: "set kept \<subseteq> set all_matches"
    using filter_overlaps_subset[of "[]" ?sorted] k by auto
  have so: "sorted_wrt (\<lambda>a b. m_start b \<le> m_start a) kept"
    unfolding k by (rule filter_overlaps_sorted) (simp add: sort_desc_sorted)
  have no: "sorted_wrt (\<lambda>a b. \<not> overlaps a b) kept"
    unfolding k by (rule filter_overlaps_no_overlap) simp
  have pair: "disjoint_spans (kept ! i) (kept ! j)"
    if "i < length kept" "j < length kept" "i \<noteq> j" for i j
  proof (cases "i < j")
    case True
    then have "\<not> overlaps (kept ! i) (kept ! j)"
      using no that by (simp add: sorted_wrt_iff_nth_less)
    then show ?thesis by (rule not_overlaps_disjoint)
  next
    case False
    then have "j < i" using that by simp
    then have "\<not> overlaps (kept ! j) (kept ! i)"
      using no that by (simp add: sorted_wrt_iff_nth_less)
    then have "\<not> overlaps (kept ! i) (kept ! j)"
      by (simp add: overlaps_sym)
    then show ?thesis by (rule not_overlaps_disjoint)
  qed
  have greedy: "\<exists>k\<in>set kept. overlaps m k" if "m \<in> set all_matches" "m \<notin> set kept" for m
    using filter_overlaps_greedy[of m ?sorted "[]"] that k by simp
  from a sub so pair greedy show ?thesis by blast
qed

lemma sample_spans:
  "applied_spans latin1_rt False (ustr ''ab cd'') [(ustr ''c'', map ustr [''ab'', ''b'', ''cd''])]
     = Some [\<lparr> m_start = 3, m_end = 5, m_text = ustr ''cd'', m_class = ustr ''highlight-c'' \<rparr>,
             \<lparr> m_start = 1, m_end = 2, m_text = ustr ''b'', m_class = ustr ''highlight-c'' \<rparr>]"
  "category_loop latin1_rt False (ustr ''ab cd'') [(ustr ''c'', map ustr [''ab'', ''b'', ''cd''])] []
     = Some [\<lparr> m_start = 0, m_end = 2, m_text = ustr ''ab'', m_class = ustr ''highlight-c'' \<rparr>,
             \<lparr> m_start = 1, m_end = 2, m_text = ustr ''b'', m_class = ustr ''highlight-c'' \<rparr>,
             \<lparr> m_start = 3, m_end = 5, m_text = ustr ''cd'', m_class = ustr ''highlight-c'' \<rparr>]"
  by code_simp+

theorem applied_spans_disjoint_witness:
  "applied_spans latin1_rt False (ustr ''ab cd'') [(ustr ''c'', map ustr [''ab'', ''b'', ''cd''])]
     = Some [\<lparr> m_start = 3, m_end = 5, m_text = ustr ''cd'', m_class = ustr ''highlight-c'' \<rparr>,
             \<lparr> m_start = 1, m_end = 2, m_text = ustr ''b'', m_class = ustr ''highlight-c'' \<rparr>]
   \<and> disjoint_spans
         \<lparr> m_start = 3, m_end = 5, m_text = ustr ''cd'', m_class = ustr ''highlight-c'' \<rparr>
         \<lparr> m_start = 1, m_end = 2, m_text = ustr ''b'', m_class = ustr ''highlight-c'' \<rparr>
   \<and> overlaps
         \<lparr> m_start = 0, m_end = 2, m_text = ustr ''ab'', m_class = ustr ''highlight-c'' \<rparr>
         \<lparr> m_start = 1, m_end = 2, m_text = ustr ''b'', m_class = ustr ''highlight-c'' \<rparr>"
proof -
  let ?cd = "\<lparr> m_start = 3, m_end = 5, m_text = ustr ''cd'', m_class = ustr ''highlight-c'' \<rparr>"
  let ?b = "\<lparr> m_start = 1, m_end = 2, m_text = ustr ''b'', m_class = ustr ''highlight-c'' \<rparr>"
  let ?ab = "\<lparr> m_start = 0, m_end = 2, m_text = ustr ''ab'', m_class = ustr ''highlight-c'' \<rparr>"
  from applied_spans_disjoint[OF sample_spans(1)]
  have p: "\<forall>i < length [?cd, ?b]. \<forall>j < length [?cd, ?b].
             i \<noteq> j \<longrightarrow> disjoint_spans ([?cd, ?b] ! i) ([?cd, ?b] ! j)"
    by blast
  have d: "disjoint_spans ?cd ?b"
    using p[THEN spec, of 0, THEN mp, THEN spec, of 1] by simp
  have o: "overlaps ?ab ?b"
    by (simp add: overlaps_def)
  from sample_spans(1) d o show ?thesis by (intro conjI)
qed

section \<open>The two expansions of the wildcard templates\<close>

lemmas highlight_defs = convert_wildcard_to_regex_def keyword_pattern_def is_meta_def
  behavioral_pattern_sources_def

text \<open>
  C3. The behavioural matcher and the highlighter do not accept the same substrings for
  the template \<open>activity schedul*\<close>: the pattern of the matcher, which is the pattern
  string of the source compiled, has one literal space between the two words, the pattern
  of the highlighter a run of whitespace and a closing word boundary. On
  \<open>Activity  Scheduling\<close>, with two spaces, the highlighter marks the twenty characters and
  the matcher reports nothing.
\<close>

theorem wildcard_expansion_differs:
  "map re_compile behavioral_pattern_sources = map Some behavioral_patterns
   \<and> behavioral_patterns ! 0 = WordB # map Lit (ustr ''activity schedul'') @ [Star CWord]
   \<and> keyword_pattern latin1_rt use_word_boundary (ustr ''activity schedul*'')
       = Some (WordB # map Lit (ustr ''activity'') @ [Plus CSpace] @ map Lit (ustr ''schedul'')
                @ [Star CWord, WordB])
   \<and> finditer latin1_rt True
        (WordB # map Lit (ustr ''activity'') @ [Plus CSpace] @ map Lit (ustr ''schedul'')
           @ [Star CWord, WordB])
        (ustr ''Activity  Scheduling'') = [(0, 20)]
   \<and> finditer latin1_rt True (behavioral_patterns ! 0)
        (rt_lower latin1_rt (ustr ''Activity  Scheduling'')) = []
   \<and> fst (find_behavioral_keywords_in_text latin1_rt (ustr ''Activity  Scheduling'')) = []"
proof (intro conjI)
  show "map re_compile behavioral_pattern_sources = map Some behavioral_patterns"
    by (simp add: eval_defs highlight_defs)
  show "behavioral_patterns ! 0 = WordB # map Lit (ustr ''activity schedul'') @ [Star CWord]"
    by (simp add: eval_defs)
  show "keyword_pattern latin1_rt use_word_boundary (ustr ''activity schedul*'')
       = Some (WordB # map Lit (ustr ''activity'') @ [Plus CSpace] @ map Lit (ustr ''schedul'')
                @ [Star CWord, WordB])"
    by (simp add: eval_defs highlight_defs)
  show "finditer latin1_rt True
        (WordB # map Lit (ustr ''activity'') @ [Plus CSpace] @ map Lit (ustr ''schedul'')
           @ [Star CWord, WordB])
        (ustr ''Activity  Scheduling'') = [(0, 20)]"
    by (simp add: eval_defs Let_def)
  show "finditer latin1_rt True (behavioral_patterns ! 0)
        (rt_lower latin1_rt (ustr ''Activity  Scheduling'')) = []"
    by (simp add: eval_defs Let_def)
  show "fst (find_behavioral_keywords_in_text latin1_rt (ustr ''Activity  Scheduling'')) = []"
    by (simp add: eval_defs Let_def)
qed

section \<open>The rendered text\<close>






lemma render_append: "render (a @ b) = render a @ render b"
  by (induction a rule: render.induct) simp_all
















section \<open>What the behavioural matcher records\<close>

lemma recorded_once_append:
  "recorded_once R before (ws @ vs)
     = (recorded_once R before ws \<and> recorded_once R (before @ ws) vs)"
  by (induction ws arbitrary: before) auto

lemma matches_loop_records:
  "\<exists>wild. fst (matches_loop R sentences ms (fk, fs)) = fk @ wild
      \<and> set wild \<subseteq> set ms
      \<and> recorded_once R fk wild
      \<and> set ms \<subseteq> set (fk @ wild) \<union> set (map (rt_lower R) (fk @ wild))"
proof (induction ms arbitrary: fk fs)
  case Nil
  then show ?case by simp
next
  case (Cons m ms)
  show ?case
  proof (cases "m \<in> set (map (rt_lower R) fk)")
    case True
    from Cons.IH[of fk fs] obtain wild where
      w: "fst (matches_loop R sentences ms (fk, fs)) = fk @ wild" "set wild \<subseteq> set ms"
         "recorded_once R fk wild"
         "set ms \<subseteq> set (fk @ wild) \<union> set (map (rt_lower R) (fk @ wild))"
      by blast
    have "fst (matches_loop R sentences (m # ms) (fk, fs)) = fk @ wild"
      using True w(1) by simp
    moreover have "set wild \<subseteq> set (m # ms)" using w(2) by auto
    moreover have "set (m # ms) \<subseteq> set (fk @ wild) \<union> set (map (rt_lower R) (fk @ wild))"
      using True w(4) by auto
    ultimately show ?thesis using w(3) by blast
  next
    case False
    let ?fs = "fs @ first_sentence R (\<lambda>s. py_in m (rt_lower R s)) sentences"
    from Cons.IH[of "fk @ [m]" ?fs] obtain wild where
      w: "fst (matches_loop R sentences ms (fk @ [m], ?fs)) = (fk @ [m]) @ wild"
         "set wild \<subseteq> set ms"
         "recorded_once R (fk @ [m]) wild"
         "set ms \<subseteq> set ((fk @ [m]) @ wild) \<union> set (map (rt_lower R) ((fk @ [m]) @ wild))"
      by blast
    have "fst (matches_loop R sentences (m # ms) (fk, fs)) = fk @ (m # wild)"
      using False w(1) by simp
    moreover have "set (m # wild) \<subseteq> set (m # ms)" using w(2) by auto
    moreover have "recorded_once R fk (m # wild)" using False w(3) by simp
    moreover have "set (m # ms) \<subseteq> set (fk @ (m # wild)) \<union> set (map (rt_lower R) (fk @ (m # wild)))"
      using w(4) by auto
    ultimately show ?thesis by blast
  qed
qed

lemma patterns_loop_records:
  "\<exists>wild. fst (patterns_loop R tlow sentences ps (fk, fs)) = fk @ wild
      \<and> set wild \<subseteq> (\<Union>p \<in> set ps. set (map (group0 tlow) (finditer R True p tlow)))
      \<and> recorded_once R fk wild
      \<and> (\<Union>p \<in> set ps. set (map (group0 tlow) (finditer R True p tlow)))
            \<subseteq> set (fk @ wild) \<union> set (map (rt_lower R) (fk @ wild))"
proof (induction ps arbitrary: fk fs)
  case Nil
  then show ?case by simp
next
  case (Cons p ps)
  let ?ms = "map (group0 tlow) (finditer R True p tlow)"
  obtain fk' fs' where m: "matches_loop R sentences ?ms (fk, fs) = (fk', fs')"
    by (cases "matches_loop R sentences ?ms (fk, fs)")
  from matches_loop_records[of R sentences ?ms fk fs] m obtain w1 where
    w1: "fk' = fk @ w1" "set w1 \<subseteq> set ?ms" "recorded_once R fk w1"
        "set ?ms \<subseteq> set (fk @ w1) \<union> set (map (rt_lower R) (fk @ w1))"
    by auto
  from Cons.IH[of fk' fs'] obtain w2 where
    w2: "fst (patterns_loop R tlow sentences ps (fk', fs')) = fk' @ w2"
        "set w2 \<subseteq> (\<Union>p \<in> set ps. set (map (group0 tlow) (finditer R True p tlow)))"
        "recorded_once R fk' w2"
        "(\<Union>p \<in> set ps. set (map (group0 tlow) (finditer R True p tlow)))
            \<subseteq> set (fk' @ w2) \<union> set (map (rt_lower R) (fk' @ w2))"
    by blast
  have 1: "fst (patterns_loop R tlow sentences (p # ps) (fk, fs)) = fk @ (w1 @ w2)"
    using m w1(1) w2(1) by simp
  have 2: "set (w1 @ w2)
             \<subseteq> (\<Union>p \<in> set (p # ps). set (map (group0 tlow) (finditer R True p tlow)))"
    using w1(2) w2(2) by auto
  have 3: "recorded_once R fk (w1 @ w2)"
    using w1(1,3) w2(3) by (simp add: recorded_once_append)
  have 4: "(\<Union>p \<in> set (p # ps). set (map (group0 tlow) (finditer R True p tlow)))
            \<subseteq> set (fk @ (w1 @ w2)) \<union> set (map (rt_lower R) (fk @ (w1 @ w2)))"
    using w1(1,4) w2(4) by auto
  from 1 2 3 4 show ?case by blast
qed

lemma group0_in: "py_in (group0 s sp) s"
proof -
  have "s = take (fst sp) s @ group0 s sp @ drop (snd sp - fst sp) (drop (fst sp) s)"
    unfolding group0_def by (metis append_take_drop_id)
  then show ?thesis unfolding py_in_iff by blast
qed


lemma sample_behavioral:
  "fst (find_behavioral_keywords_in_text latin1_rt (ustr ''Behavior Therapy''))
     = [ustr ''behavior therapy'']"
  "fst (find_behavioral_keywords_in_text latin1_rt (ustr ''Behavior therapy; behavior therapy''))
     = [ustr ''behavior therapy'']"
  "fst (find_keywords_in_text latin1_rt (ustr ''Behavior therapy; behavior therapy'')
          behavioral_base_keywords) = []"
  "finditer latin1_rt True (behavioral_patterns ! 2)
     (rt_lower latin1_rt (ustr ''Behavior therapy; behavior therapy'')) = [(0, 16), (18, 34)]"
  by (simp_all add: eval_defs Let_def)

text \<open>
  C4, as the code has it. The list \<open>find_behavioral_keywords_in_text\<close> returns is the
  matched literal phrases followed by strings matched by the wildcard patterns in the
  lower-cased text: each is the slice of the lower-cased text at a match, each differs
  from the lower-cased forms of all strings recorded before it, and every match of a
  pattern is in the list or is the lower-cased form of a string of the list.
\<close>

theorem find_behavioral_keywords_in_text_records:
  "\<exists>wild. fst (find_behavioral_keywords_in_text R text)
            = fst (find_keywords_in_text R text behavioral_base_keywords) @ wild
      \<and> (\<forall>w \<in> set wild. py_in w (rt_lower R text)
            \<and> (\<exists>p \<in> set behavioral_patterns. \<exists>sp \<in> set (finditer R True p (rt_lower R text)).
                  w = group0 (rt_lower R text) sp))
      \<and> recorded_once R (fst (find_keywords_in_text R text behavioral_base_keywords)) wild
      \<and> (text \<noteq> [] \<longrightarrow>
           (\<forall>p \<in> set behavioral_patterns. \<forall>sp \<in> set (finditer R True p (rt_lower R text)).
              group0 (rt_lower R text) sp
                \<in> set (fst (find_behavioral_keywords_in_text R text))
                  \<union> set (map (rt_lower R) (fst (find_behavioral_keywords_in_text R text)))))"
proof (cases "text = []")
  case True
  then show ?thesis
    by (simp add: find_behavioral_keywords_in_text_def find_keywords_in_text_def)
next
  case False
  let ?tl = "rt_lower R text"
  obtain fk fs where b: "find_keywords_in_text R text behavioral_base_keywords = (fk, fs)"
    by (cases "find_keywords_in_text R text behavioral_base_keywords")
  from patterns_loop_records[of R ?tl "split_sentences text" behavioral_patterns fk fs]
  obtain wild where
    w: "fst (patterns_loop R ?tl (split_sentences text) behavioral_patterns (fk, fs)) = fk @ wild"
       "set wild \<subseteq> (\<Union>p \<in> set behavioral_patterns. set (map (group0 ?tl) (finditer R True p ?tl)))"
       "recorded_once R fk wild"
       "(\<Union>p \<in> set behavioral_patterns. set (map (group0 ?tl) (finditer R True p ?tl)))
            \<subseteq> set (fk @ wild) \<union> set (map (rt_lower R) (fk @ wild))"
    by blast
  have f: "fst (find_behavioral_keywords_in_text R text) = fk @ wild"
    using False b w(1) by (simp add: find_behavioral_keywords_in_text_def)
  have 1: "py_in x ?tl
            \<and> (\<exists>p \<in> set behavioral_patterns. \<exists>sp \<in> set (finditer R True p ?tl).
                  x = group0 ?tl sp)" if "x \<in> set wild" for x
  proof -
    from w(2) that obtain p sp where
      "p \<in> set behavioral_patterns" "sp \<in> set (finditer R True p ?tl)" "x = group0 ?tl sp"
      by auto
    then show ?thesis using group0_in[of ?tl sp] by blast
  qed
  have 2: "group0 ?tl sp \<in> set (fk @ wild) \<union> set (map (rt_lower R) (fk @ wild))"
    if "p \<in> set behavioral_patterns" "sp \<in> set (finditer R True p ?tl)" for p sp
    using w(4) that by auto
  show ?thesis
    unfolding f b fst_conv using 1 2 w(3) by blast
qed

theorem find_behavioral_keywords_in_text_records_witness:
  "fst (find_behavioral_keywords_in_text latin1_rt (ustr ''Behavior therapy; behavior therapy''))
     = [ustr ''behavior therapy'']
   \<and> finditer latin1_rt True (behavioral_patterns ! 2)
        (rt_lower latin1_rt (ustr ''Behavior therapy; behavior therapy'')) = [(0, 16), (18, 34)]
   \<and> py_in (ustr ''behavior therapy'')
        (rt_lower latin1_rt (ustr ''Behavior therapy; behavior therapy''))
   \<and> recorded_once latin1_rt [] [ustr ''behavior therapy'']"
proof -
  let ?t = "ustr ''Behavior therapy; behavior therapy''"
  from find_behavioral_keywords_in_text_records[of latin1_rt ?t]
  obtain wild where
    w: "[ustr ''behavior therapy''] = wild"
       "\<forall>w \<in> set wild. py_in w (rt_lower latin1_rt ?t)"
       "recorded_once latin1_rt [] wild"
    unfolding sample_behavioral(2,3) by auto
  have "py_in (ustr ''behavior therapy'') (rt_lower latin1_rt ?t)"
    using w(1,2) by auto
  moreover have "recorded_once latin1_rt [] [ustr ''behavior therapy'']"
    using w(1,3) by simp
  ultimately show ?thesis using sample_behavioral(2,4) by (intro conjI)
qed

text \<open>
  C4, as the specification has it, fails: the patterns are run on the lower-cased text,
  so the string recorded for \<open>Behavior Therapy\<close> is \<open>behavior therapy\<close>, which does not
  occur in the source text.
\<close>

theorem find_behavioral_keywords_in_text_lowers:
  "fst (find_behavioral_keywords_in_text latin1_rt (ustr ''Behavior Therapy''))
     = [ustr ''behavior therapy'']
   \<and> \<not> py_in (ustr ''behavior therapy'') (ustr ''Behavior Therapy'')
   \<and> ustr ''behavior therapy'' \<noteq> ustr ''Behavior Therapy''"
proof (intro conjI)
  show "fst (find_behavioral_keywords_in_text latin1_rt (ustr ''Behavior Therapy''))
     = [ustr ''behavior therapy'']"
    by (rule sample_behavioral(1))
  show "\<not> py_in (ustr ''behavior therapy'') (ustr ''Behavior Therapy'')"
    by code_simp
  show "ustr ''behavior therapy'' \<noteq> ustr ''Behavior Therapy''"
    by code_simp
qed

end
